theory Spec2Isabelle
  imports Main
begin

section \<open>The Workbench component (app/components/workbench/Workbench.client.tsx)\<close>

text \<open>
  The component is a React function component over the external \<open>workbenchStore\<close>.
  Its local state (\<open>useState\<close>, \<open>useRef\<close>), the store fields it reads and writes, the
  props and the one platform capability it probes are gathered in one record. Every call
  the component makes to a collaborator (state setters, the store, the directory picker,
  the console, the toast library) is appended to a log, so that "is not invoked",
  "exactly one" and "true, then false" are statements about that log.
\<close>

subsection \<open>Data\<close>

datatype WorkbenchViewType = code | preview

text \<open>A \<open>FileSystemDirectoryHandle\<close> is an opaque object; a thrown value is kept as its message.\<close>

type_synonym handle = nat
type_synonym js_error = string
type_synonym FileMap = "(string \<times> string) list"
type_synonym PreviewInfo = nat

datatype MouseEvent = MouseEvent

text \<open>
  An invocation of the async function \<open>handleSyncFiles\<close> that is suspended at one of its
  two \<open>await\<close>s: on \<open>window.showDirectoryPicker()\<close>, or on \<open>workbenchStore.syncFiles(h)\<close>.
\<close>

datatype task = AwaitPicker | AwaitSync handle

datatype call =
    SetIsSyncing bool
  | ShowDirectoryPicker
  | StoreSyncFiles handle
  | SetLastSync int
  | ConsoleError js_error
  | SetDocuments FileMap
  | SetCurrentView WorkbenchViewType
  | SaveCurrentDocument
  | ToastError string

record world =
  \<comment> \<open>props\<close>
  chatStarted :: "bool option"
  isStreaming :: "bool option"
  \<comment> \<open>local state of the component\<close>
  isSyncing :: bool
  lastSync :: "int option"
  isSyncFeatureAvailable :: bool
  directoryRef :: "handle option"
  hasPreviewDep :: bool
  \<comment> \<open>the fields of workbenchStore\<close>
  currentView :: WorkbenchViewType
  previews :: "PreviewInfo list"
  files :: FileMap
  documents :: FileMap
  showWorkbench :: bool
  \<comment> \<open>whether window.showDirectoryPicker exists\<close>
  pickerDefined :: bool
  \<comment> \<open>suspended invocations of handleSyncFiles, and the log of calls made\<close>
  tasks :: "task list"
  calls :: "call list"

text \<open>
  \<open>lastSync\<close> is \<open>number | false\<close> in the source: \<open>None\<close> is \<open>false\<close>. \<open>hasPreviewDep\<close> is
  the value of the dependency \<open>[hasPreview]\<close> at the last render, which React keeps to
  decide whether the effect runs again.
\<close>

subsection \<open>State setters and store writes\<close>

definition setIsSyncing :: "bool \<Rightarrow> world \<Rightarrow> world" where
  "setIsSyncing b w = w\<lparr>isSyncing := b, calls := calls w @ [SetIsSyncing b]\<rparr>"

definition setLastSync :: "int \<Rightarrow> world \<Rightarrow> world" where
  "setLastSync t w = w\<lparr>lastSync := Some t, calls := calls w @ [SetLastSync t]\<rparr>"

definition console_error :: "js_error \<Rightarrow> world \<Rightarrow> world" where
  "console_error err w = w\<lparr>calls := calls w @ [ConsoleError err]\<rparr>"

definition setSelectedView :: "WorkbenchViewType \<Rightarrow> world \<Rightarrow> world" where
  "setSelectedView v w = w\<lparr>currentView := v, calls := calls w @ [SetCurrentView v]\<rparr>"

definition setDocuments :: "FileMap \<Rightarrow> world \<Rightarrow> world" where
  "setDocuments f w = w\<lparr>documents := f, calls := calls w @ [SetDocuments f]\<rparr>"

subsection \<open>handleSyncFiles, run to completion\<close>

text \<open>
  What the two awaited operations and the clock give to one invocation: the outcome of
  \<open>await window.showDirectoryPicker()\<close>, the outcome of \<open>await workbenchStore.syncFiles(h)\<close>,
  and the value of \<open>new Date().getTime()\<close> read after the latter.
\<close>

record env =
  pickerResult :: "js_error + handle"
  syncResult :: "js_error + unit"
  clock :: int

text \<open>
  A block of statements either completes with a value or throws; both leave the state
  as changed so far.
\<close>

datatype 'a outcome = Returned 'a world | Threw js_error world

definition notAFunction :: js_error where
  "notAFunction = ''TypeError: window.showDirectoryPicker is not a function''"

text \<open>\<open>directoryRef.current || await window.showDirectoryPicker()\<close>\<close>

definition acquireHandle :: "env \<Rightarrow> world \<Rightarrow> handle outcome" where
  "acquireHandle ev w =
     (case directoryRef w of
        Some h \<Rightarrow> Returned h w
      | None \<Rightarrow>
          if pickerDefined w then
            (let w1 = w\<lparr>calls := calls w @ [ShowDirectoryPicker]\<rparr>
             in case pickerResult ev of Inl err \<Rightarrow> Threw err w1 | Inr h \<Rightarrow> Returned h w1)
          else Threw notAFunction w)"

text \<open>The body of the \<open>try\<close>.\<close>

definition tryBlock :: "env \<Rightarrow> world \<Rightarrow> unit outcome" where
  "tryBlock ev w =
     (case acquireHandle ev w of
        Threw err w1 \<Rightarrow> Threw err w1
      | Returned h w1 \<Rightarrow>
          (let w2 = w1\<lparr>directoryRef := Some h, calls := calls w1 @ [StoreSyncFiles h]\<rparr>
           in case syncResult ev of
                Inl err \<Rightarrow> Threw err w2
              | Inr u \<Rightarrow> Returned () (setLastSync (clock ev) w2)))"

definition catch_do :: "unit outcome \<Rightarrow> (js_error \<Rightarrow> world \<Rightarrow> world) \<Rightarrow> unit outcome" where
  "catch_do r handler = (case r of Returned u w \<Rightarrow> Returned u w | Threw err w \<Rightarrow> Returned () (handler err w))"

definition finally_do :: "unit outcome \<Rightarrow> (world \<Rightarrow> world) \<Rightarrow> unit outcome" where
  "finally_do r cleanup = (case r of Returned u w \<Rightarrow> Returned u (cleanup w) | Threw err w \<Rightarrow> Threw err (cleanup w))"

definition handleSyncFiles :: "MouseEvent option \<Rightarrow> env \<Rightarrow> world \<Rightarrow> unit outcome" where
  "handleSyncFiles e ev w =
     (if directoryRef w \<noteq> None \<or> e \<noteq> None then
        finally_do (catch_do (tryBlock ev (setIsSyncing True w)) console_error) (setIsSyncing False)
      else Returned () w)"

text \<open>The calls an operation added to the log.\<close>

definition newCalls :: "world \<Rightarrow> world \<Rightarrow> call list" where
  "newCalls w w' = drop (length (calls w)) (calls w')"

fun final :: "unit outcome \<Rightarrow> world" where
  "final (Returned u w) = w"
| "final (Threw err w) = w"

fun escapes :: "unit outcome \<Rightarrow> bool" where
  "escapes (Returned u w) = False"
| "escapes (Threw err w) = True"

subsection \<open>handleSyncFiles, one await at a time\<close>

text \<open>
  The event loop may run other handlers while an invocation is suspended. The same
  function in three pieces: from the call to the first \<open>await\<close>, from the picker's
  settlement to the second, and from the store's settlement to the end.
\<close>

definition removeAt :: "nat \<Rightarrow> 'a list \<Rightarrow> 'a list" where
  "removeAt i xs = take i xs @ drop (Suc i) xs"

definition startStoreSync :: "handle \<Rightarrow> world \<Rightarrow> world" where
  "startStoreSync h w = w\<lparr>directoryRef := Some h, calls := calls w @ [StoreSyncFiles h]\<rparr>"

definition caughtAndCleaned :: "js_error \<Rightarrow> world \<Rightarrow> world" where
  "caughtAndCleaned err w = setIsSyncing False (console_error err w)"

definition handleSyncFiles_start :: "MouseEvent option \<Rightarrow> world \<Rightarrow> world" where
  "handleSyncFiles_start e w =
     (if directoryRef w \<noteq> None \<or> e \<noteq> None then
        (let w1 = setIsSyncing True w
         in case directoryRef w1 of
              Some h \<Rightarrow> (startStoreSync h w1)\<lparr>tasks := tasks w1 @ [AwaitSync h]\<rparr>
            | None \<Rightarrow>
                if pickerDefined w1 then
                  w1\<lparr>tasks := tasks w1 @ [AwaitPicker], calls := calls w1 @ [ShowDirectoryPicker]\<rparr>
                else caughtAndCleaned notAFunction w1)
      else w)"

definition pickerSettled :: "nat \<Rightarrow> js_error + handle \<Rightarrow> world \<Rightarrow> world" where
  "pickerSettled i r w =
     (if i < length (tasks w) then
        (case tasks w ! i of
           AwaitPicker \<Rightarrow>
             (case r of
                Inl err \<Rightarrow> caughtAndCleaned err (w\<lparr>tasks := removeAt i (tasks w)\<rparr>)
              | Inr h \<Rightarrow> startStoreSync h (w\<lparr>tasks := (tasks w)[i := AwaitSync h]\<rparr>))
         | AwaitSync h \<Rightarrow> w)
      else w)"

definition syncSettled :: "nat \<Rightarrow> js_error + unit \<Rightarrow> int \<Rightarrow> world \<Rightarrow> world" where
  "syncSettled i r t w =
     (if i < length (tasks w) then
        (case tasks w ! i of
           AwaitPicker \<Rightarrow> w
         | AwaitSync h \<Rightarrow>
             (case r of
                Inl err \<Rightarrow> caughtAndCleaned err (w\<lparr>tasks := removeAt i (tasks w)\<rparr>)
              | Inr u \<Rightarrow> setIsSyncing False (setLastSync t (w\<lparr>tasks := removeAt i (tasks w)\<rparr>))))
      else w)"

subsection \<open>Effects, handlers and the event loop\<close>

definition hasPreview :: "world \<Rightarrow> bool" where
  "hasPreview w = (length (previews w) > 0)"

text \<open>\<open>useEffect(() => { if (hasPreview) setSelectedView('preview') }, [hasPreview])\<close>\<close>

definition hasPreviewEffect :: "world \<Rightarrow> world" where
  "hasPreviewEffect w = (if hasPreview w then setSelectedView preview w else w)"

text \<open>A render after the first one runs the effect only if its dependency changed.\<close>

definition rerender :: "world \<Rightarrow> world" where
  "rerender w =
     (if hasPreview w \<noteq> hasPreviewDep w
      then (hasPreviewEffect w)\<lparr>hasPreviewDep := hasPreview w\<rparr>
      else w)"

text \<open>\<open>useEffect(() => { workbenchStore.setDocuments(files); handleSyncFiles() }, [files])\<close>\<close>

definition filesEffect :: "world \<Rightarrow> world" where
  "filesEffect w = handleSyncFiles_start None (setDocuments (files w) w)"

text \<open>\<open>workbenchStore.saveCurrentDocument().catch(() => toast.error(...))\<close>\<close>

definition onFileSave :: "js_error + unit \<Rightarrow> world \<Rightarrow> world" where
  "onFileSave r w =
     (let w1 = w\<lparr>calls := calls w @ [SaveCurrentDocument]\<rparr>
      in case r of
           Inl err \<Rightarrow> w1\<lparr>calls := calls w1 @ [ToastError ''Failed to update file content'']\<rparr>
         | Inr u \<Rightarrow> w1)"

text \<open>
  The sync button is in the tree only when \<open>chatStarted\<close> is truthy, and it is
  \<open>disabled={!isSyncFeatureAvailable || isSyncing}\<close>.
\<close>

definition syncButtonDisabled :: "world \<Rightarrow> bool" where
  "syncButtonDisabled w = (\<not> isSyncFeatureAvailable w \<or> isSyncing w)"

definition syncButtonClickable :: "world \<Rightarrow> bool" where
  "syncButtonClickable w = (chatStarted w = Some True \<and> \<not> syncButtonDisabled w)"

text \<open>
  The first render: the initial values of \<open>useState\<close> and \<open>useRef\<close>, then the three
  effects in the order of the source. Props, store and platform are those of \<open>w0\<close>.
\<close>

definition mount :: "world \<Rightarrow> world" where
  "mount w0 =
     (let w = w0\<lparr>isSyncing := False, lastSync := None, isSyncFeatureAvailable := False,
                 directoryRef := None, hasPreviewDep := hasPreview w0, tasks := [], calls := []\<rparr>;
          w1 = w\<lparr>isSyncFeatureAvailable := pickerDefined w\<rparr>;
          w2 = hasPreviewEffect w1
      in filesEffect w2)"

text \<open>
  What can happen after the first render. The store publishes a new object for every
  change of \<open>files\<close>, so the dependency \<open>[files]\<close> differs at each \<open>FilesChanged\<close> and the
  effect runs; \<open>hasPreview\<close> is a boolean and is compared by value.
\<close>

datatype event =
    Click
  | PickerSettled nat "js_error + handle"
  | SyncSettled nat "js_error + unit" int
  | FilesChanged FileMap
  | PreviewsChanged "PreviewInfo list"
  | SelectView WorkbenchViewType
  | FileSave "js_error + unit"
  | PropsChanged "bool option" "bool option"
  | ShowWorkbench bool

fun step :: "event \<Rightarrow> world \<Rightarrow> world" where
  "step Click w = (if syncButtonClickable w then handleSyncFiles_start (Some MouseEvent) w else w)"
| "step (PickerSettled i r) w = pickerSettled i r w"
| "step (SyncSettled i r t) w = syncSettled i r t w"
| "step (FilesChanged f) w = filesEffect (w\<lparr>files := f\<rparr>)"
| "step (PreviewsChanged ps) w = rerender (w\<lparr>previews := ps\<rparr>)"
| "step (SelectView v) w = setSelectedView v w"
| "step (FileSave r) w = onFileSave r w"
| "step (PropsChanged c s) w = w\<lparr>chatStarted := c, isStreaming := s\<rparr>"
| "step (ShowWorkbench b) w = w\<lparr>showWorkbench := b\<rparr>"

fun run :: "event list \<Rightarrow> world \<Rightarrow> world" where
  "run [] w = w"
| "run (e # es) w = run es (step e w)"

subsection \<open>Render\<close>

text \<open>Decimal printing of an integer, as string concatenation and template literals do.\<close>

fun showNat :: "nat \<Rightarrow> string" where
  "showNat n = (if n < 10 then [char_of (48 + n)] else showNat (n div 10) @ [char_of (48 + n mod 10)])"

definition showInt :: "int \<Rightarrow> string" where
  "showInt i = (if i < 0 then CHR ''-'' # showNat (nat (- i)) else showNat (nat i))"

text \<open>The remainder operator \<open>%\<close> takes the sign of the dividend.\<close>

definition jsRem :: "int \<Rightarrow> int \<Rightarrow> int" where
  "jsRem a b = (if a < 0 then - ((- a) mod \<bar>b\<bar>) else a mod \<bar>b\<bar>)"

text \<open>\<open>if (lastSync)\<close> is false for \<open>false\<close> and for the number 0.\<close>

definition lastSyncTruthy :: "world \<Rightarrow> bool" where
  "lastSyncTruthy w = (case lastSync w of None \<Rightarrow> False | Some t \<Rightarrow> t \<noteq> 0)"

definition label :: "int \<Rightarrow> world \<Rightarrow> string" where
  "label now w =
     (case lastSync w of
        None \<Rightarrow> ''undefined''
      | Some t \<Rightarrow>
          if t = 0 then ''undefined''
          else (let seconds = (now - t) div 1000;
                    minutes = seconds div 60;
                    remainingSeconds = jsRem seconds 60
                in (if minutes > 0 then showInt minutes @ ''m'' else []) @ '' ''
                   @ showInt remainingSeconds @ ''s ago''))"

definition syncLabel :: "int \<Rightarrow> world \<Rightarrow> string" where
  "syncLabel now w =
     (if isSyncFeatureAvailable w then
        (if isSyncing w then ''Syncing...''
         else if lastSyncTruthy w then ''Synced '' @ label now w else ''Select sync folder'')
      else ''Live Sync in Chrome, Edge, Opera'')"

record panel =
  animate :: string
  leftClass :: string
  sliderSelected :: WorkbenchViewType
  syncDisabled :: bool
  syncIcon :: string
  syncText :: string
  editorX :: string
  previewX :: string
  editorIsStreaming :: "bool option"

text \<open>
  The value the component returns is \<open>chatStarted && (<motion.div ...>)\<close>: the left operand
  when it is falsy (\<open>false\<close>, or \<open>undefined\<close> for the omitted optional prop), else the element.
\<close>

datatype jsx = JsFalse | JsUndefined | Element panel

definition render :: "int \<Rightarrow> world \<Rightarrow> jsx" where
  "render now w =
     (case chatStarted w of
        None \<Rightarrow> JsUndefined
      | Some False \<Rightarrow> JsFalse
      | Some True \<Rightarrow>
          Element \<lparr>
            animate = (if showWorkbench w then ''open'' else ''closed''),
            leftClass = (if showWorkbench w then ''left-[var(--workbench-left)]'' else ''left-[100%]''),
            sliderSelected = currentView w,
            syncDisabled = syncButtonDisabled w,
            syncIcon = (if isSyncing w then ''i-ph:spinner'' else ''i-ph:cloud-arrow-down''),
            syncText = syncLabel now w,
            editorX = (if currentView w = code then ''0'' else ''-100%''),
            previewX = (if currentView w = preview then ''0'' else ''100%''),
            editorIsStreaming = isStreaming w
          \<rparr>)"

text \<open>React puts nothing in the tree for \<open>false\<close> and \<open>undefined\<close>.\<close>

fun inTree :: "jsx \<Rightarrow> bool" where
  "inTree JsFalse = False"
| "inTree JsUndefined = False"
| "inTree (Element p) = True"

subsection \<open>Notions used to state the properties\<close>

text \<open>
  One invocation run without interleaving, through the three pieces: the task it
  creates is the last of the list, and is settled with the outcomes of \<open>ev\<close>.
\<close>

definition toCompletion :: "MouseEvent option \<Rightarrow> env \<Rightarrow> world \<Rightarrow> world" where
  "toCompletion e ev w =
     (let i = length (tasks w)
      in syncSettled i (syncResult ev) (clock ev)
           (pickerSettled i (pickerResult ev) (handleSyncFiles_start e w)))"

text \<open>A last-sync timestamp is recorded and is strictly later than \<open>t0\<close>.\<close>

definition recordedAfter :: "int \<Rightarrow> world \<Rightarrow> bool" where
  "recordedAfter t0 w = (case lastSync w of None \<Rightarrow> False | Some t \<Rightarrow> t0 < t)"

text \<open>At most one invocation of \<open>handleSyncFiles\<close> is suspended.\<close>

definition atMostOneInFlight :: "world \<Rightarrow> bool" where
  "atMostOneInFlight w = (length (tasks w) \<le> 1)"

text \<open>
  Every change of the file set arrives while no invocation is suspended or while no
  handle is cached.
\<close>

fun filesChangeOnlyWhenIdle :: "event list \<Rightarrow> world \<Rightarrow> bool" where
  "filesChangeOnlyWhenIdle [] w = True"
| "filesChangeOnlyWhenIdle (e # es) w =
     ((case e of FilesChanged f \<Rightarrow> tasks w = [] \<or> directoryRef w = None | _ \<Rightarrow> True)
      \<and> filesChangeOnlyWhenIdle es (step e w))"

text \<open>
  Events that neither select a view by hand nor empty the previews list.
\<close>

fun keepsPreviews :: "event \<Rightarrow> bool" where
  "keepsPreviews (PreviewsChanged ps) = (ps \<noteq> [])"
| "keepsPreviews (SelectView v) = False"
| "keepsPreviews e = True"

fun isToast :: "call \<Rightarrow> bool" where
  "isToast (ToastError m) = True"
| "isToast c = False"

text \<open>
  The suspended invocations agree with the cached handle: one that waits for the
  picker is alone, with no handle cached and the flag set; one that waits for the
  store was given the cached handle.
\<close>

definition taskAgrees :: "world \<Rightarrow> task \<Rightarrow> bool" where
  "taskAgrees w t =
     (case t of
        AwaitPicker \<Rightarrow> tasks w = [AwaitPicker] \<and> directoryRef w = None \<and> isSyncing w
      | AwaitSync h \<Rightarrow> directoryRef w = Some h)"

definition handleInv :: "world \<Rightarrow> bool" where
  "handleInv w = list_all (taskAgrees w) (tasks w)"

text \<open>The calls of a log that show no picker and give the store only the handle \<open>h\<close>.\<close>

fun reuses :: "handle \<Rightarrow> call \<Rightarrow> bool" where
  "reuses h ShowDirectoryPicker = False"
| "reuses h (StoreSyncFiles h') = (h' = h)"
| "reuses h c = True"

text \<open>A world to evaluate on: the chat has started, no previews, no files, a browser with the picker.\<close>

definition exampleWorld :: world where
  "exampleWorld = \<lparr>chatStarted = Some True, isStreaming = None, isSyncing = False, lastSync = None,
     isSyncFeatureAvailable = False, directoryRef = None, hasPreviewDep = False,
     currentView = code, previews = [], files = [], documents = [], showWorkbench = True,
     pickerDefined = True, tasks = [], calls = []\<rparr>"

text \<open>
  No invocation is suspended, or exactly one is and the flag is set.
\<close>

definition single :: "world \<Rightarrow> bool" where
  "single w = (tasks w = [] \<or> (isSyncing w \<and> length (tasks w) = 1))"

section \<open>Properties\<close>

subsection \<open>Unfolding and evaluation\<close>

lemmas setters = setIsSyncing_def setLastSync_def console_error_def setSelectedView_def
  setDocuments_def startStoreSync_def caughtAndCleaned_def

lemmas atomic_defs = handleSyncFiles_def tryBlock_def acquireHandle_def catch_do_def finally_do_def
  newCalls_def

lemmas mount_eval = mount_def exampleWorld_def filesEffect_def hasPreviewEffect_def hasPreview_def
  handleSyncFiles_start_def setters Let_def

lemmas click_eval = syncButtonClickable_def syncButtonDisabled_def pickerSettled_def
  syncSettled_def removeAt_def

lemma removeAt_last [simp]: "removeAt (length xs) (xs @ [x]) = xs"
  by (simp add: removeAt_def)

lemma removeAt_single [simp]: "length xs = 1 \<Longrightarrow> i < 1 \<Longrightarrow> removeAt i xs = []"
  by (cases xs) (simp_all add: removeAt_def)

lemma removeAt_singleton [simp]: "removeAt 0 [x] = []"
  by (simp add: removeAt_def)

lemma set_removeAt: "set (removeAt i xs) \<subseteq> set xs"
  by (auto simp add: removeAt_def dest: in_set_takeD in_set_dropD)

lemma newCalls_append [simp]: "calls w' = calls w @ cs \<Longrightarrow> newCalls w w' = cs"
  by (simp add: newCalls_def)

subsection \<open>The two readings of handleSyncFiles agree\<close>

text \<open>
  Run without interleaving, the three pieces of the suspended function compute what the
  \<open>try\<close>/\<open>catch\<close>/\<open>finally\<close> reading computes, and that reading never throws.
\<close>

lemma handleSyncFiles_agrees:
  "handleSyncFiles e ev w = Returned () (toCompletion e ev w)"
  by (cases "directoryRef w"; cases "pickerResult ev"; cases "syncResult ev"; cases e)
     (simp_all add: handleSyncFiles_def toCompletion_def handleSyncFiles_start_def tryBlock_def
        acquireHandle_def catch_do_def finally_do_def pickerSettled_def syncSettled_def setters
        Let_def nth_append)

lemma handleSyncFiles_cleanup:
  "directoryRef w \<noteq> None \<or> e \<noteq> None \<Longrightarrow>
   \<not> escapes (handleSyncFiles e ev w) \<and> \<not> isSyncing (final (handleSyncFiles e ev w))"
  by (cases "directoryRef w"; cases "pickerResult ev"; cases "syncResult ev")
     (simp_all add: atomic_defs setters Let_def)

subsection \<open>Failure of a sync\<close>

text \<open>
  C1. Take an invocation of \<open>handleSyncFiles\<close> that passes the guard and fails: no handle
  is cached and the picker is missing or rejects, or the store's \<open>syncFiles\<close> rejects.
  Then the invocation returns normally (nothing is thrown to the caller); \<open>lastSync\<close> is
  what it was and \<open>setLastSync\<close> is not called; the error is given to \<open>console.error\<close>;
  and the last thing done is \<open>setIsSyncing(false)\<close>, so \<open>isSyncing\<close> is false at the end.
  The cleanup is the \<open>finally\<close>: with the same arguments, whatever the awaited operations
  give, success or failure, nothing escapes and \<open>isSyncing\<close> ends false.
\<close>

theorem handleSyncFiles_failure:
  assumes guard: "directoryRef w \<noteq> None \<or> e \<noteq> None"
    and fails: "(directoryRef w = None \<and> (\<not> pickerDefined w \<or> isl (pickerResult ev))) \<or> isl (syncResult ev)"
  shows "\<exists>w' err pre.
           handleSyncFiles e ev w = Returned () w'
         \<and> lastSync w' = lastSync w
         \<and> \<not> isSyncing w'
         \<and> newCalls w w' = SetIsSyncing True # pre @ [ConsoleError err, SetIsSyncing False]
         \<and> (\<forall>t. SetLastSync t \<notin> set pre)
         \<and> (\<forall>ev'. \<not> escapes (handleSyncFiles e ev' w) \<and> \<not> isSyncing (final (handleSyncFiles e ev' w)))"
proof -
  have cleanup: "\<forall>ev'. \<not> escapes (handleSyncFiles e ev' w) \<and> \<not> isSyncing (final (handleSyncFiles e ev' w))"
    using guard by (simp add: handleSyncFiles_cleanup)
  have "\<exists>w' err pre.
           handleSyncFiles e ev w = Returned () w'
         \<and> lastSync w' = lastSync w
         \<and> \<not> isSyncing w'
         \<and> newCalls w w' = SetIsSyncing True # pre @ [ConsoleError err, SetIsSyncing False]
         \<and> (\<forall>t. SetLastSync t \<notin> set pre)"
  proof (cases "directoryRef w")
    case (Some h)
    with fails obtain err where err: "syncResult ev = Inl err"
      by (cases "syncResult ev") auto
    show ?thesis
      apply (rule exI [of _ "final (handleSyncFiles e ev w)"], rule exI [of _ err], rule exI [of _ "[StoreSyncFiles h]"])
      using Some err by (simp add: atomic_defs setters)
  next
    case None
    show ?thesis
    proof (cases "pickerDefined w")
      case False
      show ?thesis
        apply (rule exI [of _ "final (handleSyncFiles e ev w)"], rule exI [of _ notAFunction], rule exI [of _ "[]"])
        using None False guard by (simp add: atomic_defs setters)
    next
      case True
      show ?thesis
      proof (cases "pickerResult ev")
        case (Inl err)
        show ?thesis
          apply (rule exI [of _ "final (handleSyncFiles e ev w)"], rule exI [of _ err], rule exI [of _ "[ShowDirectoryPicker]"])
          using None True Inl guard by (simp add: atomic_defs setters)
      next
        case (Inr h)
        with fails None True obtain err where err: "syncResult ev = Inl err"
          by (cases "syncResult ev") auto
        show ?thesis
          apply (rule exI [of _ "final (handleSyncFiles e ev w)"], rule exI [of _ err], rule exI [of _ "[ShowDirectoryPicker, StoreSyncFiles h]"])
          using None True Inr err guard by (simp add: atomic_defs setters)
      qed
    qed
  qed
  with cleanup show ?thesis by blast
qed

theorem handleSyncFiles_failure_witness:
  "\<exists>w'. handleSyncFiles (Some MouseEvent)
          \<lparr>pickerResult = Inl ''AbortError'', syncResult = Inr (), clock = 1000\<rparr> (mount exampleWorld)
        = Returned () w' \<and> lastSync w' = None \<and> \<not> isSyncing w'"
  using handleSyncFiles_failure [of "mount exampleWorld" "Some MouseEvent"
      "\<lparr>pickerResult = Inl ''AbortError'', syncResult = Inr (), clock = 1000\<rparr>"]
  by (auto simp add: mount_eval)

subsection \<open>The silent no-op\<close>

text \<open>
  C2. An invocation of \<open>handleSyncFiles\<close> without a mouse event, while no directory handle
  is cached, does nothing: it returns with the state as it was, so \<open>isSyncing\<close> is
  unchanged, the call log gains no entry (no picker, no \<open>workbenchStore.syncFiles\<close>), and
  no invocation is left suspended.
\<close>

theorem handleSyncFiles_noop:
  "directoryRef w = None \<Longrightarrow>
     handleSyncFiles None ev w = Returned () w \<and> handleSyncFiles_start None w = w"
  by (simp add: handleSyncFiles_def handleSyncFiles_start_def)

theorem handleSyncFiles_noop_witness:
  "directoryRef (mount exampleWorld) = None
   \<and> handleSyncFiles None \<lparr>pickerResult = Inr 7, syncResult = Inr (), clock = 1000\<rparr> (mount exampleWorld)
       = Returned () (mount exampleWorld)
   \<and> \<not> isSyncing (mount exampleWorld)
   \<and> newCalls (mount exampleWorld) (mount exampleWorld) = []"
proof -
  have d: "directoryRef (mount exampleWorld) = None"
    by (simp add: mount_eval)
  have s: "\<not> isSyncing (mount exampleWorld)"
    by (simp add: mount_eval)
  show ?thesis
    using d s handleSyncFiles_noop [OF d, of "\<lparr>pickerResult = Inr 7, syncResult = Inr (), clock = 1000\<rparr>"]
    by (simp add: newCalls_def)
qed

subsection \<open>The dependency of the preview effect\<close>

text \<open>
  In every state the component reaches, the dependency value React keeps is the current
  \<open>hasPreview\<close>: each change of the previews list is followed by a render.
\<close>

lemma dep_mount: "hasPreviewDep (mount w0) = hasPreview (mount w0)"
  by (simp add: mount_def filesEffect_def hasPreviewEffect_def hasPreview_def
        handleSyncFiles_start_def setters Let_def)

lemma dep_step: "hasPreviewDep w = hasPreview w \<Longrightarrow> hasPreviewDep (step e w) = hasPreview (step e w)"
  by (cases e)
     (auto simp add: filesEffect_def hasPreviewEffect_def hasPreview_def rerender_def onFileSave_def
        handleSyncFiles_start_def pickerSettled_def syncSettled_def setters Let_def
        split: task.splits sum.splits option.splits)

lemma dep_run: "hasPreviewDep w = hasPreview w \<Longrightarrow> hasPreviewDep (run es w) = hasPreview (run es w)"
  by (induction es arbitrary: w) (simp_all add: dep_step)

lemma dep_reachable: "hasPreviewDep (run es (mount w0)) = hasPreview (run es (mount w0))"
  by (rule dep_run [OF dep_mount])

text \<open>
  C3. In any state reached from the first render by any events: when the previews list is
  empty and becomes non-empty, the view mode is \<open>preview\<close> afterwards, whatever it was
  (\<open>code\<close> included); when the previews list becomes empty, the view mode is unchanged and
  nothing is called.
\<close>

theorem preview_arrival:
  "(previews (run es (mount w0)) = [] \<and> ps \<noteq> []
      \<longrightarrow> currentView (step (PreviewsChanged ps) (run es (mount w0))) = preview)
   \<and> currentView (step (PreviewsChanged []) (run es (mount w0))) = currentView (run es (mount w0))
   \<and> newCalls (run es (mount w0)) (step (PreviewsChanged []) (run es (mount w0))) = []"
  using dep_reachable [of es w0]
  by (auto simp add: rerender_def hasPreviewEffect_def hasPreview_def newCalls_def setters)

theorem preview_arrival_witness:
  "previews (run [SelectView code] (mount exampleWorld)) = []
   \<and> currentView (run [SelectView code] (mount exampleWorld)) = code
   \<and> currentView (step (PreviewsChanged [1]) (run [SelectView code] (mount exampleWorld))) = preview"
  using preview_arrival [of "[SelectView code]" exampleWorld "[1]"]
  by (simp add: mount_eval)

subsection \<open>Manual view switches\<close>

lemma sticky_step:
  "keepsPreviews e \<Longrightarrow> hasPreviewDep w \<Longrightarrow> hasPreview w \<Longrightarrow>
   hasPreviewDep (step e w) \<and> hasPreview (step e w) \<and> currentView (step e w) = currentView w"
  by (cases e)
     (auto simp add: filesEffect_def hasPreviewEffect_def hasPreview_def rerender_def onFileSave_def
        handleSyncFiles_start_def pickerSettled_def syncSettled_def setters Let_def
        split: task.splits sum.splits option.splits)

lemma sticky_run:
  "list_all keepsPreviews es \<Longrightarrow> hasPreviewDep w \<Longrightarrow> hasPreview w \<Longrightarrow>
   currentView (run es w) = currentView w"
proof (induction es arbitrary: w)
  case Nil
  then show ?case by simp
next
  case (Cons e es)
  from Cons.prems have k: "keepsPreviews e" and ks: "list_all keepsPreviews es" by simp_all
  from sticky_step [OF k Cons.prems(2) Cons.prems(3)]
  have s: "hasPreviewDep (step e w)" "hasPreview (step e w)" "currentView (step e w) = currentView w"
    by simp_all
  from Cons.IH [OF ks s(1) s(2)] s(3) show ?case by simp
qed

text \<open>
  C4. In any reached state whose previews list is non-empty, after \<open>setSelectedView(v)\<close>
  (for \<open>v = code\<close> in particular) the view mode stays \<open>v\<close> through every later sequence of
  events that contains no further manual selection and never empties the previews list:
  changes of a non-empty previews list to another non-empty one, file changes, clicks on
  the sync button, settlements, saves and prop changes do not run the preview effect.
\<close>

theorem manual_view_sticky:
  assumes "previews (run es (mount w0)) \<noteq> []" and "list_all keepsPreviews es'"
  shows "currentView (run es' (step (SelectView v) (run es (mount w0)))) = v"
proof -
  let ?w = "run es (mount w0)"
  have h: "hasPreview ?w" using assms(1) by (simp add: hasPreview_def)
  with dep_reachable [of es w0] have d: "hasPreviewDep ?w" by simp
  have "hasPreviewDep (step (SelectView v) ?w)" "hasPreview (step (SelectView v) ?w)"
    using h d by (simp_all add: setters hasPreview_def)
  from sticky_run [OF assms(2) this] show ?thesis by (simp add: setters)
qed

theorem manual_view_sticky_witness:
  "previews (run [PreviewsChanged [1]] (mount exampleWorld)) \<noteq> []
   \<and> currentView (run [PreviewsChanged [1]] (mount exampleWorld)) = preview
   \<and> currentView (run [PreviewsChanged [1, 2], FilesChanged [], Click]
        (step (SelectView code) (run [PreviewsChanged [1]] (mount exampleWorld)))) = code"
proof -
  have p: "previews (run [PreviewsChanged [1]] (mount exampleWorld)) \<noteq> []"
    by (simp add: mount_eval rerender_def)
  have c: "currentView (run [PreviewsChanged [1]] (mount exampleWorld)) = preview"
    by (simp add: mount_eval rerender_def)
  have k: "list_all keepsPreviews [PreviewsChanged [1, 2], FilesChanged [], Click]" by simp
  from manual_view_sticky [OF p k, of code] p c show ?thesis by simp
qed

subsection \<open>A successful sync\<close>

text \<open>
  C5, as the code has it. Take an invocation of \<open>handleSyncFiles\<close> with a mouse event in
  which a handle \<open>h\<close> is at hand (cached, or given by the picker) and the store's
  \<open>syncFiles\<close> resolves. Then it returns normally; the calls it makes are
  \<open>setIsSyncing(true)\<close>, the picker if no handle was cached, \<open>workbenchStore.syncFiles(h)\<close>,
  \<open>setLastSync\<close>, \<open>setIsSyncing(false)\<close>, in this order; \<open>isSyncing\<close> ends false; and the
  timestamp recorded is the value of \<open>new Date().getTime()\<close> read after the store's sync
  completed. That value is strictly later than a time \<open>t0\<close> read before the call exactly
  when the clock has advanced past \<open>t0\<close> by then.
\<close>

theorem handleSyncFiles_success:
  assumes ok: "syncResult ev = Inr ()"
    and got: "directoryRef w = Some h \<or> (directoryRef w = None \<and> pickerDefined w \<and> pickerResult ev = Inr h)"
  shows "\<exists>w'. handleSyncFiles (Some MouseEvent) ev w = Returned () w'
         \<and> \<not> isSyncing w'
         \<and> lastSync w' = Some (clock ev)
         \<and> recordedAfter t0 w' = (t0 < clock ev)
         \<and> directoryRef w' = Some h
         \<and> newCalls w w' = SetIsSyncing True # (if directoryRef w = None then [ShowDirectoryPicker] else [])
              @ [StoreSyncFiles h, SetLastSync (clock ev), SetIsSyncing False]"
  using assms by (auto simp add: atomic_defs setters recordedAfter_def)

theorem handleSyncFiles_success_witness:
  "\<exists>w'. handleSyncFiles (Some MouseEvent) \<lparr>pickerResult = Inr 7, syncResult = Inr (), clock = 1000\<rparr>
           (mount exampleWorld) = Returned () w'
       \<and> lastSync w' = Some 1000 \<and> recordedAfter 999 w' \<and> \<not> isSyncing w'"
proof -
  have d: "directoryRef (mount exampleWorld) = None \<and> pickerDefined (mount exampleWorld)"
    by (simp add: mount_eval)
  show ?thesis
    using d handleSyncFiles_success [of "\<lparr>pickerResult = Inr 7, syncResult = Inr (), clock = 1000\<rparr>"
        "mount exampleWorld" 7 999]
    by auto
qed

text \<open>
  The timestamp need not be strictly later. A first click caches the handle 7. The clock
  reads 1000 before a second click; the store's sync of the unchanged files resolves
  within the same millisecond, \<open>new Date().getTime()\<close> gives 1000 again, and the recorded
  timestamp is not greater than 1000.
\<close>

theorem timestamp_not_strictly_later:
  "\<not> recordedAfter 1000
       (final (handleSyncFiles (Some MouseEvent) \<lparr>pickerResult = Inr 7, syncResult = Inr (), clock = 1000\<rparr>
          (final (handleSyncFiles (Some MouseEvent) \<lparr>pickerResult = Inr 7, syncResult = Inr (), clock = 400\<rparr>
             (mount exampleWorld)))))"
  by (simp add: atomic_defs recordedAfter_def mount_eval)

subsection \<open>Syncs in flight\<close>

lemma single_mount: "single (mount w0)"
  by (simp add: single_def mount_def filesEffect_def hasPreviewEffect_def hasPreview_def
        handleSyncFiles_start_def setters Let_def)

lemma single_step:
  assumes "single w" and "case e of FilesChanged f \<Rightarrow> tasks w = [] \<or> directoryRef w = None | _ \<Rightarrow> True"
  shows "single (step e w)"
proof (cases e)
  case Click
  then show ?thesis using assms
    by (auto simp add: single_def syncButtonClickable_def syncButtonDisabled_def
          handleSyncFiles_start_def setters Let_def split: option.splits)
next
  case (PickerSettled i r)
  then show ?thesis using assms
    by (auto simp add: single_def pickerSettled_def setters split: task.splits sum.splits)
next
  case (SyncSettled i r t)
  then show ?thesis using assms
    by (auto simp add: single_def syncSettled_def setters split: task.splits sum.splits)
next
  case (FilesChanged f)
  then show ?thesis using assms
    by (auto simp add: single_def filesEffect_def handleSyncFiles_start_def setters Let_def
          split: option.splits)
next
  case (PreviewsChanged ps)
  then show ?thesis using assms
    by (auto simp add: single_def rerender_def hasPreviewEffect_def setters)
next
  case (SelectView v)
  then show ?thesis using assms by (auto simp add: single_def setters)
next
  case (FileSave r)
  then show ?thesis using assms by (auto simp add: single_def onFileSave_def Let_def split: sum.splits)
next
  case (PropsChanged c s)
  then show ?thesis using assms by (auto simp add: single_def)
next
  case (ShowWorkbench b)
  then show ?thesis using assms by (auto simp add: single_def)
qed

lemma single_run:
  "single w \<Longrightarrow> filesChangeOnlyWhenIdle es w \<Longrightarrow> single (run es w)"
proof (induction es arbitrary: w)
  case Nil
  then show ?case by simp
next
  case (Cons e es)
  from Cons.prems have "single (step e w)" by (simp add: single_step)
  moreover from Cons.prems have "filesChangeOnlyWhenIdle es (step e w)" by simp
  ultimately show ?case using Cons.IH by simp
qed

text \<open>
  C6, as the code has it. The sync button is disabled while \<open>isSyncing\<close> is true, so a
  click starts no second sync while one is in flight. In every state reached from the
  first render by clicks, settlements of the awaited operations, view, preview, save and
  prop events, and by file-set changes that arrive while no invocation is suspended or
  before a handle is cached, at most one invocation of \<open>handleSyncFiles\<close> is in flight.
\<close>

theorem one_sync_in_flight:
  "filesChangeOnlyWhenIdle es (mount w0) \<Longrightarrow> atMostOneInFlight (run es (mount w0))"
  using single_run [OF single_mount, of es w0] by (auto simp add: single_def atMostOneInFlight_def)

theorem one_sync_in_flight_witness:
  "filesChangeOnlyWhenIdle [FilesChanged [], Click, Click, PickerSettled 0 (Inr 7), Click] (mount exampleWorld)
   \<and> atMostOneInFlight (run [FilesChanged [], Click, Click, PickerSettled 0 (Inr 7), Click] (mount exampleWorld))
   \<and> tasks (run [FilesChanged [], Click, Click, PickerSettled 0 (Inr 7), Click] (mount exampleWorld)) = [AwaitSync 7]"
proof -
  have c: "filesChangeOnlyWhenIdle [FilesChanged [], Click, Click, PickerSettled 0 (Inr 7), Click] (mount exampleWorld)"
    by (simp add: mount_eval)
  have t: "tasks (run [FilesChanged [], Click, Click, PickerSettled 0 (Inr 7), Click] (mount exampleWorld)) = [AwaitSync 7]"
    by (simp add: mount_eval click_eval)
  from one_sync_in_flight [OF c] c t show ?thesis by simp
qed

text \<open>
  The effect on \<open>[files]\<close> calls \<open>handleSyncFiles()\<close> without looking at \<open>isSyncing\<close>. After a
  click and the choice of a folder, the store's sync for handle 7 is in flight; a change
  of the file set then starts a second one.
\<close>

theorem second_sync_started:
  "\<not> atMostOneInFlight
       (run [Click, PickerSettled 0 (Inr 7), FilesChanged [(''index.js'', ''x'')]] (mount exampleWorld))"
  by (simp add: atMostOneInFlight_def mount_eval click_eval)

subsection \<open>Render\<close>

text \<open>
  C7. When \<open>chatStarted\<close> is \<open>false\<close> the component returns \<open>false\<close>, whatever the rest of the
  props, the local state and the store hold and whatever the time: nothing of the panel
  is in the rendered tree.
\<close>

theorem render_absent:
  "chatStarted w = Some False \<Longrightarrow> render now w = JsFalse \<and> \<not> inTree (render now w)"
  by (simp add: render_def)

theorem render_absent_witness:
  "render 5000 (exampleWorld\<lparr>chatStarted := Some False, previews := [1], isSyncing := True\<rparr>) = JsFalse
   \<and> inTree (render 5000 exampleWorld)"
  using render_absent [of "exampleWorld\<lparr>chatStarted := Some False, previews := [1], isSyncing := True\<rparr>" 5000]
  by (simp add: exampleWorld_def render_def)

subsection \<open>Saving a file\<close>

text \<open>
  C8. A call of \<open>onFileSave\<close> calls the store's \<open>saveCurrentDocument\<close> once, with no retry.
  When that call rejects, \<open>toast.error\<close> is called exactly once; when it resolves,
  \<open>toast.error\<close> is not called.
\<close>

theorem onFileSave_toast:
  "newCalls w (onFileSave r w)
     = SaveCurrentDocument # (if isl r then [ToastError ''Failed to update file content''] else [])
   \<and> length (filter isToast (newCalls w (onFileSave r w))) = (if isl r then 1 else 0)
   \<and> count_list (newCalls w (onFileSave r w)) SaveCurrentDocument = 1"
  by (cases r) (simp_all add: onFileSave_def newCalls_def Let_def)

theorem onFileSave_toast_witness:
  "newCalls (mount exampleWorld) (onFileSave (Inl ''SaveError'') (mount exampleWorld))
     = [SaveCurrentDocument, ToastError ''Failed to update file content'']
   \<and> newCalls (mount exampleWorld) (onFileSave (Inr ()) (mount exampleWorld)) = [SaveCurrentDocument]"
  using onFileSave_toast [of "mount exampleWorld" "Inl ''SaveError''"]
    onFileSave_toast [of "mount exampleWorld" "Inr ()"]
  by simp

subsection \<open>A change of the file set\<close>

text \<open>
  C9. On a change of the store's file set to \<open>f\<close>, the component first calls
  \<open>workbenchStore.setDocuments(f)\<close> and then \<open>handleSyncFiles()\<close> without an event. If no
  handle is cached nothing more happens; if a handle \<open>h\<close> is cached, \<open>setIsSyncing(true)\<close>
  and \<open>workbenchStore.syncFiles(h)\<close> follow and the invocation waits for the store. The
  picker is not shown on this path, and the cached handle is unchanged.
\<close>

theorem files_change:
  "documents (step (FilesChanged f) w) = f
   \<and> newCalls w (step (FilesChanged f) w)
       = SetDocuments f # (case directoryRef w of None \<Rightarrow> [] | Some h \<Rightarrow> [SetIsSyncing True, StoreSyncFiles h])
   \<and> tasks (step (FilesChanged f) w)
       = tasks w @ (case directoryRef w of None \<Rightarrow> [] | Some h \<Rightarrow> [AwaitSync h])
   \<and> directoryRef (step (FilesChanged f) w) = directoryRef w"
  by (cases "directoryRef w")
     (simp_all add: filesEffect_def handleSyncFiles_start_def newCalls_def setters Let_def)

theorem files_change_witness:
  "newCalls (mount exampleWorld) (step (FilesChanged [(''a.ts'', ''1'')]) (mount exampleWorld))
     = [SetDocuments [(''a.ts'', ''1'')]]
   \<and> newCalls (run [Click, PickerSettled 0 (Inr 7), SyncSettled 0 (Inr ()) 1000] (mount exampleWorld))
       (step (FilesChanged [(''a.ts'', ''1'')])
          (run [Click, PickerSettled 0 (Inr 7), SyncSettled 0 (Inr ()) 1000] (mount exampleWorld)))
     = [SetDocuments [(''a.ts'', ''1'')], SetIsSyncing True, StoreSyncFiles 7]"
proof -
  have d0: "directoryRef (mount exampleWorld) = None"
    by (simp add: mount_eval)
  have d1: "directoryRef (run [Click, PickerSettled 0 (Inr 7), SyncSettled 0 (Inr ()) 1000] (mount exampleWorld)) = Some 7"
    by (simp add: mount_eval click_eval)
  from files_change [of "[(''a.ts'', ''1'')]" "mount exampleWorld"]
    files_change [of "[(''a.ts'', ''1'')]"
      "run [Click, PickerSettled 0 (Inr 7), SyncSettled 0 (Inr ()) 1000] (mount exampleWorld)"]
    d0 d1
  show ?thesis by simp
qed

subsection \<open>The cached directory handle\<close>

lemma handleInv_iff:
  "handleInv w \<longleftrightarrow>
     (AwaitPicker \<in> set (tasks w) \<longrightarrow> tasks w = [AwaitPicker] \<and> directoryRef w = None \<and> isSyncing w)
   \<and> (\<forall>h. AwaitSync h \<in> set (tasks w) \<longrightarrow> directoryRef w = Some h)"
  by (auto simp add: handleInv_def taskAgrees_def list_all_iff split: task.splits)

lemma handleInv_mount: "handleInv (mount w0)"
  by (simp add: handleInv_def mount_def filesEffect_def hasPreviewEffect_def hasPreview_def
        handleSyncFiles_start_def setters Let_def)

text \<open>With a handle cached, a step keeps it and adds only calls that reuse it.\<close>

lemma cached_step:
  assumes inv: "handleInv w" and cached: "directoryRef w = Some h"
  shows "handleInv (step e w) \<and> directoryRef (step e w) = Some h
         \<and> (\<exists>cs. calls (step e w) = calls w @ cs \<and> list_all (reuses h) cs)"
proof -
  from inv cached have noPicker: "AwaitPicker \<notin> set (tasks w)"
    and syncs: "\<And>h'. AwaitSync h' \<in> set (tasks w) \<Longrightarrow> h' = h"
    by (auto simp add: handleInv_iff)
  show ?thesis
  proof (cases e)
    case Click
    then show ?thesis using noPicker syncs cached
      by (auto simp add: handleInv_iff handleSyncFiles_start_def setters Let_def)
  next
    case (PickerSettled i r)
    have "tasks w ! i \<noteq> AwaitPicker" if "i < length (tasks w)"
      using noPicker that by (metis nth_mem)
    then show ?thesis using PickerSettled noPicker syncs cached
      by (auto simp add: handleInv_iff pickerSettled_def split: task.splits)
  next
    case (SyncSettled i r t)
    have sub: "set (removeAt i (tasks w)) \<subseteq> set (tasks w)" by (rule set_removeAt)
    show ?thesis
    proof (cases "i < length (tasks w)")
      case False
      then show ?thesis using SyncSettled inv cached by (simp add: syncSettled_def)
    next
      case True
      with noPicker obtain h' where t: "tasks w ! i = AwaitSync h'"
        by (metis nth_mem task.exhaust)
      show ?thesis
      proof (cases r)
        case (Inl err)
        then show ?thesis using SyncSettled True t sub noPicker syncs cached
          by (auto simp add: handleInv_iff syncSettled_def setters)
      next
        case (Inr u)
        then show ?thesis using SyncSettled True t sub noPicker syncs cached
          by (auto simp add: handleInv_iff syncSettled_def setters)
      qed
    qed
  next
    case (FilesChanged f)
    then show ?thesis using noPicker syncs cached
      by (auto simp add: handleInv_iff filesEffect_def handleSyncFiles_start_def setters Let_def)
  next
    case (PreviewsChanged ps)
    then show ?thesis using noPicker syncs cached
      by (auto simp add: handleInv_iff rerender_def hasPreviewEffect_def setters)
  next
    case (SelectView v)
    then show ?thesis using noPicker syncs cached by (auto simp add: handleInv_iff setters)
  next
    case (FileSave r)
    then show ?thesis using noPicker syncs cached
      by (cases r) (auto simp add: handleInv_iff onFileSave_def Let_def)
  next
    case (PropsChanged c s)
    then show ?thesis using noPicker syncs cached by (auto simp add: handleInv_iff)
  next
    case (ShowWorkbench b)
    then show ?thesis using noPicker syncs cached by (auto simp add: handleInv_iff)
  qed
qed

lemma cached_run:
  "handleInv w \<Longrightarrow> directoryRef w = Some h \<Longrightarrow>
   handleInv (run es w) \<and> directoryRef (run es w) = Some h
   \<and> (\<exists>cs. calls (run es w) = calls w @ cs \<and> list_all (reuses h) cs)"
proof (induction es arbitrary: w)
  case Nil
  then show ?case by simp
next
  case (Cons e es)
  from cached_step [OF Cons.prems] obtain cs where
    s: "handleInv (step e w)" "directoryRef (step e w) = Some h"
       "calls (step e w) = calls w @ cs" "list_all (reuses h) cs"
    by blast
  from Cons.IH [OF s(1) s(2)] obtain cs' where
    r: "handleInv (run es (step e w))" "directoryRef (run es (step e w)) = Some h"
       "calls (run es (step e w)) = calls (step e w) @ cs'" "list_all (reuses h) cs'"
    by blast
  from s r show ?case by simp
qed

text \<open>Without a handle cached, the invariant is kept as well.\<close>

lemma uncached_step:
  assumes inv: "handleInv w" and none: "directoryRef w = None"
  shows "handleInv (step e w)"
proof -
  from inv none have noSync: "\<And>h'. AwaitSync h' \<notin> set (tasks w)"
    and alone: "AwaitPicker \<in> set (tasks w) \<Longrightarrow> tasks w = [AwaitPicker] \<and> isSyncing w"
    by (auto simp add: handleInv_iff)
  have empty: "tasks w = []" if "\<not> isSyncing w"
  proof (cases "tasks w")
    case Nil then show ?thesis .
  next
    case (Cons t ts)
    then have "t \<in> set (tasks w)" by simp
    with noSync alone that show ?thesis by (cases t) auto
  qed
  show ?thesis
  proof (cases e)
    case Click
    then show ?thesis using inv none empty
      by (auto simp add: handleInv_iff syncButtonClickable_def syncButtonDisabled_def
            handleSyncFiles_start_def setters Let_def)
  next
    case (PickerSettled i r)
    show ?thesis
    proof (cases "i < length (tasks w) \<and> tasks w ! i = AwaitPicker")
      case False
      then show ?thesis using PickerSettled inv
        by (auto simp add: pickerSettled_def split: task.splits)
    next
      case True
      then have "AwaitPicker \<in> set (tasks w)" by (metis nth_mem)
      with alone have t: "tasks w = [AwaitPicker]" by simp
      with True have i: "i = 0" by simp
      show ?thesis using PickerSettled t i none
        by (cases r) (auto simp add: handleInv_iff pickerSettled_def setters)
    qed
  next
    case (SyncSettled i r t)
    have "tasks w ! i = AwaitPicker" if "i < length (tasks w)"
      using noSync that by (metis nth_mem task.exhaust)
    then show ?thesis using SyncSettled inv
      by (auto simp add: syncSettled_def split: task.splits)
  next
    case (FilesChanged f)
    then show ?thesis using inv none
      by (auto simp add: handleInv_iff filesEffect_def handleSyncFiles_start_def setters Let_def)
  next
    case (PreviewsChanged ps)
    then show ?thesis using inv none
      by (auto simp add: handleInv_iff rerender_def hasPreviewEffect_def setters)
  next
    case (SelectView v)
    then show ?thesis using inv by (auto simp add: handleInv_iff setters)
  next
    case (FileSave r)
    then show ?thesis using inv
      by (cases r) (auto simp add: handleInv_iff onFileSave_def Let_def)
  next
    case (PropsChanged c s)
    then show ?thesis using inv by (auto simp add: handleInv_iff)
  next
    case (ShowWorkbench b)
    then show ?thesis using inv by (auto simp add: handleInv_iff)
  qed
qed

lemma handleInv_step: "handleInv w \<Longrightarrow> handleInv (step e w)"
  using cached_step uncached_step by (cases "directoryRef w") blast+

lemma handleInv_run: "handleInv w \<Longrightarrow> handleInv (run es w)"
  by (induction es arbitrary: w) (simp_all add: handleInv_step)

lemma handleInv_reachable: "handleInv (run es (mount w0))"
  by (rule handleInv_run [OF handleInv_mount])

lemma failed_sync_keeps:
  "lastSync (step (SyncSettled i (Inl err) t) w) = lastSync w
   \<and> directoryRef (step (SyncSettled i (Inl err) t) w) = directoryRef w"
  by (simp add: syncSettled_def setters split: task.splits)

text \<open>
  C10. A click reaches \<open>handleSyncFiles\<close> through the sync button only, which is
  disabled while \<open>isSyncing\<close> is true. From any reached state in which a directory handle
  \<open>h\<close> is cached, through every later sequence of events: the cached handle is still \<open>h\<close>; the directory picker is not
  shown in any of the calls made since; every call of \<open>workbenchStore.syncFiles\<close> made
  since, from a click or from a change of the file set, is given \<open>h\<close>; and a store sync
  that fails leaves the cached handle and the recorded \<open>lastSync\<close> as they were.
\<close>

theorem handle_never_replaced:
  assumes "directoryRef (run es (mount w0)) = Some h"
  shows "directoryRef (run es' (run es (mount w0))) = Some h
       \<and> ShowDirectoryPicker \<notin> set (newCalls (run es (mount w0)) (run es' (run es (mount w0))))
       \<and> (\<forall>h'. StoreSyncFiles h' \<in> set (newCalls (run es (mount w0)) (run es' (run es (mount w0)))) \<longrightarrow> h' = h)
       \<and> directoryRef (step (SyncSettled i (Inl err) t) (run es' (run es (mount w0)))) = Some h
       \<and> lastSync (step (SyncSettled i (Inl err) t) (run es' (run es (mount w0))))
           = lastSync (run es' (run es (mount w0)))"
proof -
  let ?w = "run es (mount w0)"
  from cached_run [OF handleInv_reachable assms, of es'] obtain cs where
    r: "directoryRef (run es' ?w) = Some h" "calls (run es' ?w) = calls ?w @ cs" "list_all (reuses h) cs"
    by blast
  from r(2) have n: "newCalls ?w (run es' ?w) = cs" by simp
  have p: "ShowDirectoryPicker \<notin> set cs"
    using r(3) by (auto simp add: list_all_iff)
  have s: "\<forall>h'. StoreSyncFiles h' \<in> set cs \<longrightarrow> h' = h"
    using r(3) by (auto simp add: list_all_iff)
  from r(1) n p s failed_sync_keeps [of i err t "run es' ?w"] show ?thesis by simp
qed

theorem handle_never_replaced_witness:
  "directoryRef (run [Click, PickerSettled 0 (Inr 7)] (mount exampleWorld)) = Some 7
   \<and> directoryRef (run [SyncSettled 0 (Inl ''NotAllowedError'') 900, Click, FilesChanged []]
        (run [Click, PickerSettled 0 (Inr 7)] (mount exampleWorld))) = Some 7
   \<and> newCalls (run [Click, PickerSettled 0 (Inr 7)] (mount exampleWorld))
        (run [SyncSettled 0 (Inl ''NotAllowedError'') 900, Click, FilesChanged []]
           (run [Click, PickerSettled 0 (Inr 7)] (mount exampleWorld)))
      = [ConsoleError ''NotAllowedError'', SetIsSyncing False, SetIsSyncing True, StoreSyncFiles 7,
         SetDocuments [], SetIsSyncing True, StoreSyncFiles 7]"
proof -
  have d: "directoryRef (run [Click, PickerSettled 0 (Inr 7)] (mount exampleWorld)) = Some 7"
    by (simp add: mount_eval click_eval)
  have n: "newCalls (run [Click, PickerSettled 0 (Inr 7)] (mount exampleWorld))
        (run [SyncSettled 0 (Inl ''NotAllowedError'') 900, Click, FilesChanged []]
           (run [Click, PickerSettled 0 (Inr 7)] (mount exampleWorld)))
      = [ConsoleError ''NotAllowedError'', SetIsSyncing False, SetIsSyncing True, StoreSyncFiles 7,
         SetDocuments [], SetIsSyncing True, StoreSyncFiles 7]"
    by (simp add: mount_eval click_eval newCalls_def)
  from handle_never_replaced [OF d, of "[SyncSettled 0 (Inl ''NotAllowedError'') 900, Click, FilesChanged []]"]
    d n show ?thesis by simp
qed

end
